theory Spec2Isabelle
  imports Complex_Main "HOL-Library.AList"
begin

section \<open>Python values and errors\<close>

text \<open>
  The exceptions that the modelled parts of \<^verbatim>\<open>hierarchy.py\<close> can raise. A function
  that can raise returns \<open>error + 'a\<close>, with \<open>Inl\<close> for the exception.
\<close>

datatype error =
    ValueError | KeyError | IndexError | TypeError | AssertionError | AttributeError
  | UnboundLocalError | ZeroDivisionError | NameError | IOError | FuncError string

text \<open>
  A float is not-a-number, an infinity or a finite value. Finite values are rationals:
  rounding is not modelled, only the special values and the order.
\<close>

datatype pyfloat = NaN | NInf | Fin rat | PInf

datatype pyval =
    VNone
  | VBool bool
  | VInt int
  | VFloat pyfloat
  | VStr string
  | VList "pyval list"
  | VDict "(string \<times> pyval) list"

section \<open>Stimulus: named index subsets and folds\<close>

subsection \<open>The numpy operations used\<close>

text \<open>
  \<^verbatim>\<open>np.array_split(ary, k)\<close>: \<^verbatim>\<open>divmod(len(ary), k)\<close> gives \<open>each\<close> and \<open>extras\<close>; the
  first \<open>extras\<close> sections have \<open>each + 1\<close> elements and the others \<open>each\<close>;
  the array is cut at the running sums. A section count \<open>k \<le> 0\<close> raises ValueError.
\<close>

definition section_sizes :: "nat \<Rightarrow> nat \<Rightarrow> nat list" where
  "section_sizes n k =
     replicate (n mod k) (n div k + 1) @ replicate (k - n mod k) (n div k)"

fun split_at_sizes :: "'a list \<Rightarrow> nat list \<Rightarrow> 'a list list" where
  "split_at_sizes xs [] = []"
| "split_at_sizes xs (s # ss) = take s xs # split_at_sizes (drop s xs) ss"

definition array_split :: "'a list \<Rightarrow> int \<Rightarrow> error + 'a list list" where
  "array_split ary k =
     (if k \<le> 0 then Inl ValueError
      else Inr (split_at_sizes ary (section_sizes (length ary) (nat k))))"

text \<open>\<^verbatim>\<open>np.concatenate\<close> of an empty sequence of arrays raises ValueError.\<close>

definition np_concatenate :: "'a list list \<Rightarrow> error + 'a list" where
  "np_concatenate arys = (if arys = [] then Inl ValueError else Inr (concat arys))"

text \<open>\<^verbatim>\<open>np.where(cond)[0]\<close>: the positions at which the condition holds.\<close>

definition np_where :: "('a \<Rightarrow> bool) \<Rightarrow> 'a list \<Rightarrow> nat list" where
  "np_where P xs = [i \<leftarrow> [0..<length xs]. P (xs ! i)]"

text \<open>\<^verbatim>\<open>np.intersect1d(a, b)\<close>: the sorted, unique values that are in both arrays.\<close>

definition intersect1d :: "nat list \<Rightarrow> nat list \<Rightarrow> nat list" where
  "intersect1d a b = sort (remdups [x \<leftarrow> a. x \<in> set b])"

subsection \<open>Stimulus.indices\<close>

text \<open>
  The attributes of a \<^verbatim>\<open>Stimulus\<close> that \<^verbatim>\<open>indices\<close> reads. The grids come from a data
  file; \<^verbatim>\<open>__init__\<close> stores, for each segment, its length \<^verbatim>\<open>grid.shape[1]\<close>, its
  contrast vector and \<^verbatim>\<open>np.arange(grid.shape[1])\<close> as \<^verbatim>\<open>t_bins_from_onset\<close>.
\<close>

record stimulus =
  stim_types :: "int list"
  segment_lengths :: "nat list"
  c_t :: "int list list"

definition t_bins_from_onset :: "stimulus \<Rightarrow> nat list list" where
  "t_bins_from_onset st = map (\<lambda>n. [0..<n]) (segment_lengths st)"

text \<open>
  The dict of dicts that \<^verbatim>\<open>indices\<close> returns, as nested association lists in insertion
  order. Indices are array positions, hence natural numbers.
\<close>

type_synonym idx_dict = "(string \<times> (string \<times> nat list) list) list"

definition indices12 :: idx_dict where
  "indices12 =
     (let all_all = [0..<6400];
          all_lo = [0..<1600] @ [3200..<4800];
          all_hi = [1600..<3200] @ [4800..<6400];
          valid20_all = [20..<1600] @ [1600 + 20..<3200] @ [3200 + 20..<4800] @ [4800 + 20..<6400]
      in [(''all'', [(''all'', all_all), (''lo'', all_lo), (''hi'', all_hi)]),
          (''valid20'', [(''all'', valid20_all),
                         (''lo'', intersect1d valid20_all all_lo),
                         (''hi'', intersect1d valid20_all all_hi)])])"

definition indices19 :: "stimulus \<Rightarrow> idx_dict" where
  "indices19 st =
     (let n_t = sum_list (segment_lengths st);
          c = concat (c_t st);
          t_bins = concat (t_bins_from_onset st);
          all_lo = np_where (\<lambda>x. x = 0) c;
          all_hi = np_where (\<lambda>x. x = 1) c;
          valid20_all = np_where (\<lambda>t. 20 \<le> t) t_bins
      in [(''all'', [(''all'', [0..<n_t]), (''lo'', all_lo), (''hi'', all_hi)]),
          (''valid20'', [(''all'', valid20_all),
                         (''lo'', intersect1d valid20_all all_lo),
                         (''hi'', intersect1d valid20_all all_hi)])])"

text \<open>
  For any other list of stimulus types neither branch binds \<^verbatim>\<open>idxes\<close>, and the
  \<^verbatim>\<open>return idxes\<close> raises UnboundLocalError.
\<close>

definition indices :: "stimulus \<Rightarrow> error + idx_dict" where
  "indices st =
     (if stim_types st = [12] then Inr indices12
      else if stim_types st = [19] then Inr (indices19 st)
      else Inl UnboundLocalError)"

text \<open>\<^verbatim>\<open>all_idxes[spec[0]][spec[1]]\<close>: a missing key raises KeyError.\<close>

definition lookup_subset :: "idx_dict \<Rightarrow> string \<times> string \<Rightarrow> error + nat list" where
  "lookup_subset d spec =
     (case map_of d (fst spec) of
        None \<Rightarrow> Inl KeyError
      | Some sub \<Rightarrow> (case map_of sub (snd spec) of None \<Rightarrow> Inl KeyError | Some xs \<Rightarrow> Inr xs))"

subsection \<open>Stimulus.get_indices\<close>

datatype k_folds_arg = All_train | K_None | K int

text \<open>
  The loop over \<^verbatim>\<open>range(len(splits))\<close>: fold \<open>i\<close> tests on \<^verbatim>\<open>splits[i]\<close> and trains on
  the concatenation of the other sections.
\<close>

fun fold_loop :: "'a list list \<Rightarrow> nat list \<Rightarrow> error + ('a list \<times> 'a list) list" where
  "fold_loop splits [] = Inr []"
| "fold_loop splits (i # is) =
     (case np_concatenate (take i splits @ drop (i + 1) splits) of
        Inl e \<Rightarrow> Inl e
      | Inr train \<Rightarrow>
          (case fold_loop splits is of
             Inl e \<Rightarrow> Inl e
           | Inr rest \<Rightarrow> Inr ((train, splits ! i) # rest)))"

definition no_overlap :: "('a list \<times> 'a list) list \<Rightarrow> bool list" where
  "no_overlap folds = map (\<lambda>(train, test). list_all (\<lambda>x. x \<notin> set test) train) folds"

text \<open>
  \<^verbatim>\<open>if fold_idxes_to_include:\<close> is false for \<^verbatim>\<open>None\<close> and for an empty list; otherwise
  the folds whose position is in the list are kept.
\<close>

definition select_folds :: "int list option \<Rightarrow> 'b list \<Rightarrow> 'b list" where
  "select_folds fold_idxes_to_include folds =
     (case fold_idxes_to_include of
        None \<Rightarrow> folds
      | Some [] \<Rightarrow> folds
      | Some incl \<Rightarrow> map snd [p \<leftarrow> enumerate 0 folds. int (fst p) \<in> set incl])"

definition folds_of ::
  "nat list \<Rightarrow> k_folds_arg \<Rightarrow> int list option \<Rightarrow> error + (nat list \<times> nat list) list" where
  "folds_of idxes k_folds fold_idxes_to_include =
     (case k_folds of
        All_train \<Rightarrow> Inr [(idxes, [])]
      | K_None \<Rightarrow>
          (case array_split idxes 10 of
             Inl e \<Rightarrow> Inl e
           | Inr splits \<Rightarrow>
               (case np_concatenate (butlast splits) of
                  Inl e \<Rightarrow> Inl e
                | Inr train \<Rightarrow> Inr [(train, last splits)]))
      | K k \<Rightarrow>
          if k = 1 then
            (case array_split idxes 10 of
               Inl e \<Rightarrow> Inl e
             | Inr splits \<Rightarrow>
                 (case np_concatenate (butlast splits) of
                    Inl e \<Rightarrow> Inl e
                  | Inr train \<Rightarrow> Inr [(train, last splits)]))
          else
            (case array_split idxes k of
               Inl e \<Rightarrow> Inl e
             | Inr splits \<Rightarrow>
                 (case fold_loop splits [0..<length splits] of
                    Inl e \<Rightarrow> Inl e
                  | Inr folds \<Rightarrow>
                      if \<not> list_all id (no_overlap folds) then Inl AssertionError
                      else
                        (case np_concatenate (map snd folds) of
                           Inl e \<Rightarrow> Inl e
                         | Inr tests \<Rightarrow>
                             if sort tests \<noteq> idxes then Inl AssertionError
                             else Inr (select_folds fold_idxes_to_include folds)))))"

definition get_indices ::
  "stimulus \<Rightarrow> string \<times> string \<Rightarrow> k_folds_arg \<Rightarrow> int list option
     \<Rightarrow> error + (nat list \<times> nat list) list" where
  "get_indices st spec k_folds fold_idxes_to_include =
     (case indices st of
        Inl e \<Rightarrow> Inl e
      | Inr all_idxes \<Rightarrow>
          (case lookup_subset all_idxes spec of
             Inl e \<Rightarrow> Inl e
           | Inr idxes \<Rightarrow> folds_of idxes k_folds fold_idxes_to_include))"


section \<open>Clusters\<close>

subsection \<open>Dicts, truth values and comparisons\<close>

text \<open>
  A dict is an association list in insertion order: \<^verbatim>\<open>d[k]\<close> is \<open>map_of d k\<close>,
  \<^verbatim>\<open>d[k] = v\<close> is \<open>AList.update k v d\<close> (in place for a key already there, at the end
  for a new one) and \<^verbatim>\<open>d.update(e)\<close> stores the items of \<open>e\<close> one after the other.
\<close>

type_synonym pydict = "(string \<times> pyval) list"


definition getitem :: "pydict \<Rightarrow> string \<Rightarrow> error + pyval" where
  "getitem d k = (case map_of d k of None \<Rightarrow> Inl KeyError | Some v \<Rightarrow> Inr v)"

text \<open>A list comprehension whose element expression can raise stops at the first error.\<close>

fun map_err :: "('a \<Rightarrow> error + 'b) \<Rightarrow> 'a list \<Rightarrow> error + 'b list" where
  "map_err f [] = Inr []"
| "map_err f (x # xs) =
     (case f x of
        Inl e \<Rightarrow> Inl e
      | Inr y \<Rightarrow> (case map_err f xs of Inl e \<Rightarrow> Inl e | Inr ys \<Rightarrow> Inr (y # ys)))"

fun filter_err :: "('a \<Rightarrow> error + bool) \<Rightarrow> 'a list \<Rightarrow> error + 'a list" where
  "filter_err p [] = Inr []"
| "filter_err p (x # xs) =
     (case p x of
        Inl e \<Rightarrow> Inl e
      | Inr b \<Rightarrow>
          (case filter_err p xs of
             Inl e \<Rightarrow> Inl e
           | Inr ys \<Rightarrow> Inr (if b then x # ys else ys)))"


fun truthy :: "pyval \<Rightarrow> bool" where
  "truthy VNone = False"
| "truthy (VBool b) = b"
| "truthy (VInt i) = (i \<noteq> 0)"
| "truthy (VFloat f) = (f \<noteq> Fin 0)"
| "truthy (VStr s) = (s \<noteq> [])"
| "truthy (VList xs) = (xs \<noteq> [])"
| "truthy (VDict d) = (d \<noteq> [])"

text \<open>The numeric value of a bool, an int or a float; other values have none.\<close>

fun num_of :: "pyval \<Rightarrow> pyfloat option" where
  "num_of (VBool b) = Some (Fin (if b then 1 else 0))"
| "num_of (VInt i) = Some (Fin (of_int i))"
| "num_of (VFloat f) = Some f"
| "num_of _ = None"

text \<open>The order of floats: every comparison with NaN is false.\<close>

fun float_le :: "pyfloat \<Rightarrow> pyfloat \<Rightarrow> bool" where
  "float_le NaN _ = False"
| "float_le _ NaN = False"
| "float_le NInf _ = True"
| "float_le _ PInf = True"
| "float_le (Fin a) (Fin b) = (a \<le> b)"
| "float_le _ _ = False"

text \<open>\<^verbatim>\<open>a <= b\<close>: between numbers; a TypeError when an operand is not a number.\<close>

definition py_le :: "pyval \<Rightarrow> pyval \<Rightarrow> error + bool" where
  "py_le a b =
     (case (num_of a, num_of b) of
        (Some x, Some y) \<Rightarrow> Inr (float_le x y)
      | _ \<Rightarrow> Inl TypeError)"

text \<open>
  \<^verbatim>\<open>a == b\<close>: numbers are compared by value, whatever their type, and NaN equals
  nothing; other values are equal when they are the same value.
\<close>

definition py_eq :: "pyval \<Rightarrow> pyval \<Rightarrow> bool" where
  "py_eq a b =
     (case (num_of a, num_of b) of
        (Some x, Some y) \<Rightarrow> x \<noteq> NaN \<and> x = y
      | (None, None) \<Rightarrow> a = b
      | _ \<Rightarrow> False)"

definition py_in :: "pyval \<Rightarrow> pyval list \<Rightarrow> bool" where
  "py_in x xs = list_ex (py_eq x) xs"

text \<open>\<^verbatim>\<open>math.isnan(x)\<close>: a TypeError when \<open>x\<close> is not a number.\<close>

definition isnan :: "pyval \<Rightarrow> error + bool" where
  "isnan x = (case num_of x of None \<Rightarrow> Inl TypeError | Some f \<Rightarrow> Inr (f = NaN))"

subsection \<open>Clusters.__init__: signal and noise power\<close>

text \<open>
  \<^verbatim>\<open>sahani_quick\<close> belongs to another package; its three results are taken as given.
  Whether they are Python floats or numpy floats decides what a division by zero does:
  a Python float raises ZeroDivisionError, a numpy float gives an infinity or NaN.
  Signed zeros are not modelled.
\<close>

record powers =
  signal_power :: pyfloat
  noise_power :: pyfloat
  total_power :: pyfloat

datatype float_kind = Python_float | Numpy_float

fun numpy_divide :: "pyfloat \<Rightarrow> pyfloat \<Rightarrow> pyfloat" where
  "numpy_divide NaN _ = NaN"
| "numpy_divide _ NaN = NaN"
| "numpy_divide (Fin a) (Fin b) =
     (if b \<noteq> 0 then Fin (a / b)
      else if 0 < a then PInf else if a < 0 then NInf else NaN)"
| "numpy_divide (Fin a) _ = Fin 0"
| "numpy_divide PInf (Fin b) = (if 0 \<le> b then PInf else NInf)"
| "numpy_divide NInf (Fin b) = (if 0 \<le> b then NInf else PInf)"
| "numpy_divide _ _ = NaN"

definition float_divide :: "float_kind \<Rightarrow> pyfloat \<Rightarrow> pyfloat \<Rightarrow> error + pyfloat" where
  "float_divide kind a b =
     (if kind = Python_float \<and> b = Fin 0 then Inl ZeroDivisionError
      else Inr (numpy_divide a b))"

text \<open>
  The power fields of one condition of an optogenetic cluster (\<^verbatim>\<open>light_off\<close> or
  \<^verbatim>\<open>light_on\<close>), which tests the signal power before dividing.
\<close>

definition cond_power_fields :: "float_kind \<Rightarrow> powers \<Rightarrow> error + pydict" where
  "cond_power_fields kind p =
     (let cond = [(''signal_power'', VFloat (signal_power p)),
                  (''noise_power'', VFloat (noise_power p)),
                  (''total_power'', VFloat (total_power p))]
      in if signal_power p = Fin 0
         then Inr (AList.update ''noiseratio'' (VFloat NaN) cond)
         else (case float_divide kind (noise_power p) (signal_power p) of
                 Inl e \<Rightarrow> Inl e
               | Inr q \<Rightarrow> Inr (AList.update ''noiseratio'' (VFloat q) cond)))"

text \<open>The power fields of a cluster that is not optogenetic: the division is not guarded.\<close>

definition plain_power_fields :: "float_kind \<Rightarrow> powers \<Rightarrow> error + pydict" where
  "plain_power_fields kind p =
     (let d = [(''signal_power'', VFloat (signal_power p)),
               (''noise_power'', VFloat (noise_power p)),
               (''total_power'', VFloat (total_power p))]
      in case float_divide kind (noise_power p) (signal_power p) of
           Inl e \<Rightarrow> Inl e
         | Inr q \<Rightarrow> Inr (AList.update ''noiseratio'' (VFloat q) d))"

text \<open>
  The power fields of the primary data set of a loaded cluster: for an optogenetic
  cluster \<^verbatim>\<open>d.update(d['light_off'])\<close> makes them those of the light-off condition.
\<close>

definition power_fields :: "float_kind \<Rightarrow> bool \<Rightarrow> powers \<Rightarrow> error + pydict" where
  "power_fields kind optogenetic p =
     (if optogenetic then cond_power_fields kind p else plain_power_fields kind p)"

subsection \<open>The analysis-parameter fingerprint and the results paths\<close>

fun join :: "string \<Rightarrow> string list \<Rightarrow> string" where
  "join sep [] = []"
| "join sep [x] = x"
| "join sep (x # y # ys) = x @ sep @ join sep (y # ys)"

text \<open>\<^verbatim>\<open>s.split('.')[-1]\<close>: what follows the last dot of \<open>s\<close>.\<close>

definition after_last_dot :: "string \<Rightarrow> string" where
  "after_last_dot s = rev (takeWhile (\<lambda>c. c \<noteq> CHR ''.'') (rev s))"

text \<open>
  A parameter value, as far as \<^verbatim>\<open>build_param_str\<close> and \<^verbatim>\<open>build_fieldname\<close> look at it:
  a class with its \<^verbatim>\<open>__name__\<close>, a list with the \<^verbatim>\<open>str\<close> of each item, or any other
  value with its \<^verbatim>\<open>str\<close>.
\<close>

datatype param_value = Class_value string | List_value "string list" | Other_value string

type_synonym params = "(string \<times> param_value) list"

text \<open>
  An analysis function: its \<^verbatim>\<open>__name__\<close> and what a call
  \<^verbatim>\<open>func(cluster, clusters, **params)\<close> returns or raises.
\<close>

record analysis_func =
  func_name :: string
  func_call :: "pydict \<Rightarrow> pydict list \<Rightarrow> params \<Rightarrow> error + pyval"

datatype func_arg = Func_str string | Func analysis_func

definition build_param_str :: "func_arg \<Rightarrow> params \<Rightarrow> string" where
  "build_param_str func ps =
     (let param_str =
        [case func of Func_str s \<Rightarrow> s | Func f \<Rightarrow> func_name f] @
        map (\<lambda>(name, value).
               name @ ''='' @
               (case value of
                  Class_value n \<Rightarrow> after_last_dot n
                | List_value items \<Rightarrow> join ''-'' items
                | Other_value v \<Rightarrow> v)) ps
      in join ''--'' param_str)"

definition build_fieldname :: "func_arg \<Rightarrow> params \<Rightarrow> string" where
  "build_fieldname func ps =
     (let param_str =
        [case func of Func_str s \<Rightarrow> s | Func f \<Rightarrow> func_name f] @
        map (\<lambda>(name, value).
               name @ ''_'' @
               (case value of
                  Class_value n \<Rightarrow> after_last_dot n
                | List_value items \<Rightarrow> join ''_'' items
                | Other_value v \<Rightarrow> v)) ps
      in join ''__'' param_str)"

text \<open>
  Paths are strings. \<^verbatim>\<open>Path(a, b, c)\<close> and \<^verbatim>\<open>a / b\<close> join with a slash (the
  normalisation that pathlib does is not modelled); \<^verbatim>\<open>with_suffix\<close> replaces the
  suffix of the final component, which starts at its last dot unless that dot is its first
  or last character, or appends when there is none.
\<close>

definition path_join :: "string list \<Rightarrow> string" where
  "path_join parts = join ''/'' parts"

definition path_name :: "string \<Rightarrow> string" where
  "path_name p = rev (takeWhile (\<lambda>c. c \<noteq> CHR ''/'') (rev p))"

definition path_suffix :: "string \<Rightarrow> string" where
  "path_suffix p =
     (let name = path_name p;
          ext = after_last_dot name
      in if CHR ''.'' \<in> set name \<and> ext \<noteq> [] \<and> length ext + 1 < length name
         then CHR ''.'' # ext else [])"

definition with_suffix :: "string \<Rightarrow> string \<Rightarrow> string" where
  "with_suffix p suffix = take (length p - length (path_suffix p)) p @ suffix"

text \<open>
  The module globals that the methods read: \<^verbatim>\<open>HIERARCHY_ROOT\<close> and, for \<^verbatim>\<open>eval(func)\<close>,
  the functions that names evaluate to.
\<close>

record module_env =
  hierarchy_root :: string
  globals :: "string \<Rightarrow> analysis_func option"

text \<open>The attributes of a \<^verbatim>\<open>Clusters\<close> object that the modelled methods use.\<close>

record clusters_obj =
  clusters :: "pydict list"
  results_subdir :: string

text \<open>The results path of the single-file mode of \<^verbatim>\<open>run_analysis\<close>.\<close>

definition run_analysis_results_path :: "module_env \<Rightarrow> clusters_obj \<Rightarrow> func_arg \<Rightarrow> params \<Rightarrow> string" where
  "run_analysis_results_path env self func ps =
     (let results_dir = path_join [hierarchy_root env, ''results'', results_subdir self];
          filename = build_param_str func ps
      in with_suffix (path_join [results_dir, filename]) ''.pkl'')"

text \<open>The results directory of the multiple-files mode of \<^verbatim>\<open>run_analysis\<close>.\<close>

definition run_analysis_results_dir :: "module_env \<Rightarrow> clusters_obj \<Rightarrow> func_arg \<Rightarrow> params \<Rightarrow> string" where
  "run_analysis_results_dir env self func ps =
     (let raw_param_str = build_param_str func ps
      in path_join [hierarchy_root env, ''results'', results_subdir self, raw_param_str])"



text \<open>\<^verbatim>\<open>if isinstance(func, str): func = eval(func)\<close>, a NameError for an unknown name.\<close>

definition resolve_func :: "module_env \<Rightarrow> func_arg \<Rightarrow> error + analysis_func" where
  "resolve_func env func =
     (case func of
        Func f \<Rightarrow> Inr f
      | Func_str s \<Rightarrow> (case globals env s of None \<Rightarrow> Inl NameError | Some f \<Rightarrow> Inr f))"

subsection \<open>Clusters.run_analysis\<close>

text \<open>
  What the methods change outside the object: the pickle files, by path, and, to state
  which units are computed, the list of clusters that the analysis function was called on.
\<close>

datatype pickled = Results_list "pydict list" | Result_entry pydict

record world =
  files :: "string \<Rightarrow> pickled option"
  calls :: "pydict list"

definition apply_func_to_cluster ::
  "analysis_func \<Rightarrow> pydict \<Rightarrow> pydict list \<Rightarrow> params \<Rightarrow> bool \<Rightarrow> world
     \<Rightarrow> (error + pydict option) \<times> world" where
  "apply_func_to_cluster func cluster cs ps fail_on_error w =
     (let w' = w\<lparr>calls := calls w @ [cluster]\<rparr>
      in case func_call func cluster cs ps of
           Inl e \<Rightarrow> if fail_on_error then (Inl e, w') else (Inr None, w')
         | Inr result \<Rightarrow>
             if \<not> truthy result then (Inr None, w')
             else (case getitem cluster ''unique_id'' of
                     Inl e \<Rightarrow> (Inl e, w')
                   | Inr uid \<Rightarrow>
                       (Inr (Some (AList.update (func_name func) result [(''unique_id'', uid)])), w')))"

text \<open>
  \<^verbatim>\<open>ceil(len(self.clusters)/total_data_segments)\<close>; the rounding of the float division
  is not modelled.
\<close>

definition segment_length :: "nat \<Rightarrow> int \<Rightarrow> error + int" where
  "segment_length n segs =
     (if segs = 0 then Inl ZeroDivisionError
      else Inr \<lceil>(of_nat n :: rat) / of_int segs\<rceil>)"

text \<open>The slice \<^verbatim>\<open>xs[a:b]\<close>: a negative bound counts from the end, and bounds are clipped.\<close>

definition py_slice :: "'a list \<Rightarrow> int \<Rightarrow> int \<Rightarrow> 'a list" where
  "py_slice xs a b =
     (let n = int (length xs);
          lo = (if a < 0 then max 0 (n + a) else min a n);
          hi = (if b < 0 then max 0 (n + b) else min b n)
      in take (nat (hi - lo)) (drop (nat lo) xs))"

text \<open>The clusters that the batch job \<open>this_data_segment\<close> of \<open>total_data_segments\<close> processes.\<close>

definition segment_window :: "'a list \<Rightarrow> int \<Rightarrow> int \<Rightarrow> error + 'a list" where
  "segment_window cs this_data_segment total_data_segments =
     (case segment_length (length cs) total_data_segments of
        Inl e \<Rightarrow> Inl e
      | Inr seg_len \<Rightarrow>
          (let first_cluster_idx = (this_data_segment - 1) * seg_len
           in Inr (py_slice cs first_cluster_idx (first_cluster_idx + seg_len))))"

text \<open>The loop of the mode that saves nothing.\<close>

fun analyse_loop ::
  "analysis_func \<Rightarrow> pydict list \<Rightarrow> params \<Rightarrow> bool \<Rightarrow> pydict list \<Rightarrow> pydict list \<Rightarrow> world
     \<Rightarrow> (error + pydict list) \<times> world" where
  "analyse_loop func cs ps foe [] res w = (Inr res, w)"
| "analyse_loop func cs ps foe (cluster # rest) res w =
     (case apply_func_to_cluster func cluster cs ps foe w of
        (Inl e, w') \<Rightarrow> (Inl e, w')
      | (Inr r, w') \<Rightarrow>
          analyse_loop func cs ps foe rest (case r of None \<Rightarrow> res | Some x \<Rightarrow> res @ [x]) w')"

text \<open>The loop of the single-file mode, which skips the units already in the file.\<close>

fun resume_loop ::
  "analysis_func \<Rightarrow> pydict list \<Rightarrow> params \<Rightarrow> bool \<Rightarrow> bool \<Rightarrow> pyval list \<Rightarrow> pydict list
     \<Rightarrow> pydict list \<Rightarrow> world \<Rightarrow> (error + pydict list) \<times> world" where
  "resume_loop func cs ps foe ign processed_ids [] res w = (Inr res, w)"
| "resume_loop func cs ps foe ign processed_ids (cluster # rest) res w =
     (case getitem cluster ''unique_id'' of
        Inl e \<Rightarrow> (Inl e, w)
      | Inr uid \<Rightarrow>
          if py_in uid processed_ids \<and> \<not> ign
          then resume_loop func cs ps foe ign processed_ids rest res w
          else
            (case apply_func_to_cluster func cluster cs ps foe w of
               (Inl e, w') \<Rightarrow> (Inl e, w')
             | (Inr r, w') \<Rightarrow>
                 resume_loop func cs ps foe ign processed_ids rest
                   (case r of None \<Rightarrow> res | Some x \<Rightarrow> res @ [x]) w'))"

text \<open>
  The loop of the multiple-files mode: one file per unit, skipped when it exists; the
  analysis function is applied with the default \<^verbatim>\<open>fail_on_error=True\<close>.
\<close>

fun files_loop ::
  "analysis_func \<Rightarrow> pydict list \<Rightarrow> params \<Rightarrow> bool \<Rightarrow> string \<Rightarrow> string \<Rightarrow> pydict list \<Rightarrow> world
     \<Rightarrow> error option \<times> world" where
  "files_loop func cs ps ign results_dir raw_param_str [] w = (None, w)"
| "files_loop func cs ps ign results_dir raw_param_str (cluster # rest) w =
     (case getitem cluster ''unique_id'' of
        Inl e \<Rightarrow> (Some e, w)
      | Inr (VStr uid) \<Rightarrow>
          (let param_str = uid @ ''--'' @ raw_param_str;
               results_path = path_join [results_dir, param_str @ ''.pkl'']
           in if files w results_path \<noteq> None \<and> \<not> ign
              then files_loop func cs ps ign results_dir raw_param_str rest w
              else
                (case apply_func_to_cluster func cluster cs ps True w of
                   (Inl e, w') \<Rightarrow> (Some e, w')
                 | (Inr None, w') \<Rightarrow> files_loop func cs ps ign results_dir raw_param_str rest w'
                 | (Inr (Some r), w') \<Rightarrow>
                     files_loop func cs ps ign results_dir raw_param_str rest
                       (w'\<lparr>files := (files w')(results_path \<mapsto> Result_entry r)\<rparr>)))
      | Inr _ \<Rightarrow> (Some TypeError, w))"

record run_options =
  save_results :: bool
  multiple_results_files :: bool
  ignore_existing :: bool
  this_data_segment :: int
  total_data_segments :: int
  fail_on_error :: bool

text \<open>
  \<^verbatim>\<open>run_analysis\<close> with \<^verbatim>\<open>load_analyses_first=None\<close>. It returns the results list, or
  \<^verbatim>\<open>None\<close> in the multiple-files mode. The progress display is left out. A results
  file that holds something other than a list raises TypeError here.
\<close>

definition run_analysis ::
  "module_env \<Rightarrow> clusters_obj \<Rightarrow> func_arg \<Rightarrow> params \<Rightarrow> run_options \<Rightarrow> world
     \<Rightarrow> (error + pydict list option) \<times> world" where
  "run_analysis env self func ps opts w =
     (case segment_window (clusters self) (this_data_segment opts) (total_data_segments opts) of
        Inl e \<Rightarrow> (Inl e, w)
      | Inr window \<Rightarrow>
     (case resolve_func env func of
        Inl e \<Rightarrow> (Inl e, w)
      | Inr f \<Rightarrow>
          if \<not> save_results opts then
            (case analyse_loop f (clusters self) ps (fail_on_error opts) window [] w of
               (Inl e, w') \<Rightarrow> (Inl e, w')
             | (Inr res, w') \<Rightarrow> (Inr (Some res), w'))
          else if \<not> multiple_results_files opts then
            (let results_path = run_analysis_results_path env self (Func f) ps;
                 loaded =
                   (if ignore_existing opts \<and> files w results_path \<noteq> None then Inr []
                    else (case files w results_path of
                            None \<Rightarrow> Inr []
                          | Some (Results_list res) \<Rightarrow> Inr res
                          | Some (Result_entry r) \<Rightarrow> Inl TypeError))
             in case loaded of
                  Inl e \<Rightarrow> (Inl e, w)
                | Inr res \<Rightarrow>
                    (case map_err (\<lambda>r. getitem r ''unique_id'') res of
                       Inl e \<Rightarrow> (Inl e, w)
                     | Inr processed_ids \<Rightarrow>
                         (case resume_loop f (clusters self) ps (fail_on_error opts)
                                 (ignore_existing opts) processed_ids window res w of
                            (Inl e, w') \<Rightarrow> (Inl e, w')
                          | (Inr res', w') \<Rightarrow>
                              (Inr (Some res'),
                               w'\<lparr>files := (files w')(results_path \<mapsto> Results_list res')\<rparr>))))
          else
            (let results_dir = run_analysis_results_dir env self (Func f) ps;
                 raw_param_str = build_param_str (Func f) ps
             in case files_loop f (clusters self) ps (ignore_existing opts)
                       results_dir raw_param_str window w of
                  (Some e, w') \<Rightarrow> (Inl e, w')
                | (None, w') \<Rightarrow> (Inr None, w'))))"

subsection \<open>Clusters.merge_results\<close>







subsection \<open>Clusters.select_data\<close>

text \<open>The two list comprehensions of the \<^verbatim>\<open>noiseratio\<close> keyword.\<close>

definition select_noiseratio :: "pyval \<Rightarrow> pydict list \<Rightarrow> error + pydict list" where
  "select_noiseratio vals cs =
     (if \<not> py_in vals [VStr ''inf'', VFloat PInf] then
        (case filter_err
                (\<lambda>c. case getitem c ''noiseratio'' of
                        Inl e \<Rightarrow> Inl e
                      | Inr x \<Rightarrow> (case isnan x of Inl e \<Rightarrow> Inl e | Inr b \<Rightarrow> Inr (\<not> b))) cs of
           Inl e \<Rightarrow> Inl e
         | Inr cs' \<Rightarrow>
             filter_err
               (\<lambda>c. case getitem c ''noiseratio'' of Inl e \<Rightarrow> Inl e | Inr x \<Rightarrow> py_le x vals) cs')
      else Inr cs)"

text \<open>Any other keyword: a list or tuple of values, both modelled as a list, or one value.\<close>

definition select_field :: "string \<Rightarrow> pyval \<Rightarrow> pydict list \<Rightarrow> error + pydict list" where
  "select_field kw vals cs =
     (let vals' = (case vals of VList l \<Rightarrow> l | v \<Rightarrow> [v])
      in if take (length ''exclude_'') kw = ''exclude_'' then
           (let kw' = drop (length ''exclude_'') kw
            in filter_err
                 (\<lambda>c. case getitem c kw' of Inl e \<Rightarrow> Inl e | Inr x \<Rightarrow> Inr (\<not> py_in x vals')) cs)
         else
           (case vals' of
              [] \<Rightarrow> Inl IndexError
            | v0 # _ \<Rightarrow>
                if py_eq v0 (VStr ''*'') then Inr [c \<leftarrow> cs. map_of c kw \<noteq> None]
                else
                  filter_err
                    (\<lambda>c. case getitem c kw of Inl e \<Rightarrow> Inl e | Inr x \<Rightarrow> Inr (py_in x vals')) cs))"

fun select_loop :: "(string \<times> pyval) list \<Rightarrow> pydict list \<Rightarrow> error + pydict list" where
  "select_loop [] cs = Inr cs"
| "select_loop ((kw, vals) # rest) cs =
     (case (if kw = ''noiseratio'' then select_noiseratio vals cs else select_field kw vals cs) of
        Inl e \<Rightarrow> Inl e
      | Inr cs' \<Rightarrow> select_loop rest cs')"

definition select_data :: "clusters_obj \<Rightarrow> (string \<times> pyval) list \<Rightarrow> error + pydict list" where
  "select_data self kwargs = select_loop kwargs (clusters self)"

section \<open>Auxiliary definitions\<close>

text \<open>The folds that the loop of \<^verbatim>\<open>get_indices\<close> builds, in closed form.\<close>

definition fold_pairs :: "'a list list \<Rightarrow> nat list \<Rightarrow> ('a list \<times> 'a list) list" where
  "fold_pairs splits is = map (\<lambda>i. (concat (take i splits @ drop (i + 1) splits), splits ! i)) is"

text \<open>A small stimulus of type 19: a low-contrast segment of 21 chords and a high-contrast one of 22.\<close>

definition example_stimulus :: stimulus where
  "example_stimulus =
     \<lparr>stim_types = [19], segment_lengths = [21, 22], c_t = [replicate 21 0, replicate 22 1]\<rparr>"

text \<open>The noise ratio stored in a cluster, read as NaN when it is absent or not a float.\<close>

definition noiseratio_of :: "pydict \<Rightarrow> pyfloat" where
  "noiseratio_of c = (case map_of c ''noiseratio'' of Some (VFloat f) \<Rightarrow> f | _ \<Rightarrow> NaN)"

text \<open>Three clusters: one without signal (noise ratio NaN), a clean one and a noisy one.\<close>

definition example_clusters :: clusters_obj where
  "example_clusters =
     \<lparr>clusters =
        [[(''unique_id'', VStr ''ic-e001-p001-c001''), (''noiseratio'', VFloat NaN)],
         [(''unique_id'', VStr ''ic-e001-p001-c002''), (''noiseratio'', VFloat (Fin 5))],
         [(''unique_id'', VStr ''ac-e002-p001-c001''), (''noiseratio'', VFloat (Fin 300))]],
      results_subdir = ''stim-12''\<rparr>"


text \<open>
  An analysis with two parameters, the module that defines it, the options of a resumed
  single-file run over all clusters, and a world in which the results file of that analysis
  already holds the result of the first example cluster.
\<close>

definition example_func :: analysis_func where
  "example_func =
     \<lparr>func_name = ''coch_kernel'',
      func_call = (\<lambda>cluster cs ps. Inr (VDict [(''cc'', VInt 1)]))\<rparr>"

definition example_env :: module_env where
  "example_env =
     \<lparr>hierarchy_root = ''/data/hierarchy'',
      globals = (\<lambda>s. if s = ''coch_kernel'' then Some example_func else None)\<rparr>"

definition example_params :: params where
  "example_params = [(''n_h'', Other_value ''13''), (''subset'', List_value [''valid20'', ''all''])]"

definition example_options :: run_options where
  "example_options =
     \<lparr>save_results = True, multiple_results_files = False, ignore_existing = False,
      this_data_segment = 1, total_data_segments = 1, fail_on_error = False\<rparr>"

definition example_path :: string where
  "example_path = ''/data/hierarchy/results/stim-12/coch_kernel--n_h=13--subset=valid20-all.pkl''"

definition example_old_entry :: pydict where
  "example_old_entry =
     [(''unique_id'', VStr ''ic-e001-p001-c001''), (''coch_kernel'', VDict [(''cc'', VInt 7)])]"

definition example_world :: world where
  "example_world =
     \<lparr>files = (\<lambda>p. if p = example_path then Some (Results_list [example_old_entry]) else None),
      calls = []\<rparr>"

text \<open>The results list and the world after the example run.\<close>

definition example_results :: "pydict list" where
  "example_results =
     [example_old_entry,
      [(''unique_id'', VStr ''ic-e001-p001-c002''), (''coch_kernel'', VDict [(''cc'', VInt 1)])],
      [(''unique_id'', VStr ''ac-e002-p001-c001''), (''coch_kernel'', VDict [(''cc'', VInt 1)])]]"

definition example_world_after :: world where
  "example_world_after =
     \<lparr>files = (files example_world)(example_path \<mapsto> Results_list example_results),
      calls = drop 1 (clusters example_clusters)\<rparr>"







section \<open>Properties of the index subsets and folds\<close>

lemma concat_split_at_sizes: "concat (split_at_sizes xs ss) = take (sum_list ss) xs"
proof (induction ss arbitrary: xs)
  case Nil
  show ?case by simp
next
  case (Cons s ss)
  have "take s xs @ take (sum_list ss) (drop s xs) = take (s + sum_list ss) xs"
    by (simp add: take_add)
  with Cons show ?case by simp
qed

lemma length_split_at_sizes: "length (split_at_sizes xs ss) = length ss"
  by (induction ss arbitrary: xs) simp_all

lemma length_section_sizes: "0 < k \<Longrightarrow> length (section_sizes n k) = k"
  by (simp add: section_sizes_def less_imp_le)

lemma sum_list_section_sizes: "0 < k \<Longrightarrow> sum_list (section_sizes n k) = n"
proof -
  assume k: "0 < k"
  have le: "n mod k \<le> k" using k by (simp add: less_imp_le)
  have "sum_list (section_sizes n k) = (n mod k) * (n div k + 1) + (k - n mod k) * (n div k)"
    by (simp add: section_sizes_def sum_list_replicate)
  also have "\<dots> = n mod k + (n mod k + (k - n mod k)) * (n div k)"
    by (simp add: algebra_simps)
  also have "\<dots> = n mod k + k * (n div k)" using le by simp
  also have "\<dots> = n" by simp
  finally show ?thesis .
qed

lemma array_split_Inr:
  "0 < k \<Longrightarrow> \<exists>splits. array_split ary k = Inr splits \<and> concat splits = ary \<and> length splits = nat k"
  by (simp add: array_split_def concat_split_at_sizes sum_list_section_sizes
      length_split_at_sizes length_section_sizes)

lemma fold_loop_Inr:
  "2 \<le> length splits \<Longrightarrow> \<forall>i\<in>set is. i < length splits \<Longrightarrow>
   fold_loop splits is = Inr (fold_pairs splits is)"
proof (induction "is")
  case Nil
  show ?case by (simp add: fold_pairs_def)
next
  case (Cons i "is")
  have "take i splits @ drop (i + 1) splits \<noteq> []"
    using Cons.prems by (cases "i = 0") auto
  with Cons show ?case by (simp add: np_concatenate_def fold_pairs_def)
qed

lemma map_snd_fold_pairs: "map snd (fold_pairs splits [0..<length splits]) = splits"
  by (simp add: fold_pairs_def o_def map_nth)

lemma split_disjoint:
  assumes "distinct (concat splits)" "i < length splits"
  shows "set (concat (take i splits @ drop (i + 1) splits)) \<inter> set (splits ! i) = {}"
proof -
  have "splits = take i splits @ splits ! i # drop (Suc i) splits"
    using assms(2) by (rule id_take_nth_drop)
  then have "distinct (concat (take i splits @ splits ! i # drop (Suc i) splits))"
    using assms(1) by simp
  then show ?thesis by auto
qed

lemma set_select_folds: "set (select_folds inc folds) \<subseteq> set folds"
proof (cases inc)
  case None
  then show ?thesis by (simp add: select_folds_def)
next
  case (Some incl)
  show ?thesis
  proof (cases incl)
    case Nil
    with Some show ?thesis by (simp add: select_folds_def)
  next
    case (Cons a as)
    have "set (map snd [p \<leftarrow> enumerate 0 folds. int (fst p) \<in> set incl]) \<subseteq> snd ` set (enumerate 0 folds)"
      by auto
    also have "\<dots> = set (map snd (enumerate 0 folds))" by (simp only: set_map)
    also have "\<dots> = set folds" by (simp only: map_snd_enumerate)
    finally show ?thesis using Some Cons by (simp add: select_folds_def)
  qed
qed

lemma no_overlap_fold_pairs:
  assumes "distinct (concat splits)"
  shows "list_all id (no_overlap (fold_pairs splits [0..<length splits]))"
proof -
  have "\<And>i x. i < length splits \<Longrightarrow> x \<in> set (concat (take i splits @ drop (i + 1) splits))
          \<Longrightarrow> x \<notin> set (splits ! i)"
    using split_disjoint [OF assms] by blast
  then show ?thesis
    by (simp add: no_overlap_def fold_pairs_def list_all_iff del: set_concat concat_append)
qed

lemma folds_of_K:
  assumes k: "2 \<le> k" and srt: "sorted idxes" and dst: "distinct idxes"
  shows "\<exists>splits. array_split idxes k = Inr splits \<and> concat splits = idxes \<and> length splits = nat k \<and>
           folds_of idxes (K k) inc = Inr (select_folds inc (fold_pairs splits [0..<length splits]))"
proof -
  from k have "0 < k" by simp
  from array_split_Inr [OF this, of idxes] obtain splits where
    sp: "array_split idxes k = Inr splits" "concat splits = idxes" "length splits = nat k"
    by blast
  have len: "2 \<le> length splits" using sp(3) k by simp
  have loop: "fold_loop splits [0..<length splits] = Inr (fold_pairs splits [0..<length splits])"
    using len by (intro fold_loop_Inr) simp_all
  have ov: "list_all id (no_overlap (fold_pairs splits [0..<length splits]))"
    using dst sp(2) by (intro no_overlap_fold_pairs) simp
  have ne: "splits \<noteq> []" using len by auto
  have cat: "np_concatenate (map snd (fold_pairs splits [0..<length splits])) = Inr idxes"
    using ne sp(2) by (simp add: map_snd_fold_pairs np_concatenate_def)
  have "sort idxes = idxes" using srt by (simp add: sort_key_id_if_sorted)
  with k sp loop ov cat have
    "folds_of idxes (K k) inc = Inr (select_folds inc (fold_pairs splits [0..<length splits]))"
    by (simp add: folds_of_def)
  with sp show ?thesis by blast
qed

lemma sorted_np_where: "sorted (np_where P xs)"
  by (simp add: np_where_def sorted_wrt_filter)

lemma distinct_np_where: "distinct (np_where P xs)"
  by (simp add: np_where_def)

lemma set_np_where: "set (np_where P xs) = {i. i < length xs \<and> P (xs ! i)}"
  by (auto simp: np_where_def)

lemma sorted_intersect1d: "sorted (intersect1d a b)"
  by (simp add: intersect1d_def)

lemma distinct_intersect1d: "distinct (intersect1d a b)"
  by (simp add: intersect1d_def)

lemma set_intersect1d: "set (intersect1d a b) = set a \<inter> set b"
  by (auto simp: intersect1d_def)

lemma intersect1d_id:
  "sorted a \<Longrightarrow> distinct a \<Longrightarrow> intersect1d a b = [x \<leftarrow> a. x \<in> set b]"
  by (simp add: intersect1d_def sort_key_id_if_sorted sorted_wrt_filter)

lemma lookup_subset_mem:
  assumes "lookup_subset d spec = Inr xs"
  shows "\<exists>sub. (fst spec, sub) \<in> set d \<and> (snd spec, xs) \<in> set sub"
  using assms
  by (auto simp: lookup_subset_def split: option.splits dest: map_of_SomeD)

lemma indices12_sorted_distinct:
  assumes "(k, sub) \<in> set indices12" "(k', xs) \<in> set sub"
  shows "sorted xs \<and> distinct xs"
  using assms
  by (auto simp: indices12_def Let_def sorted_append sorted_intersect1d distinct_intersect1d
      simp del: upt_rec_numeral)

lemma indices19_sorted_distinct:
  assumes "(k, sub) \<in> set (indices19 st)" "(k', xs) \<in> set sub"
  shows "sorted xs \<and> distinct xs"
  using assms
  by (auto simp: indices19_def Let_def sorted_np_where distinct_np_where
      sorted_intersect1d distinct_intersect1d)

lemma indices_sorted_distinct:
  assumes "indices st = Inr d" "lookup_subset d spec = Inr xs"
  shows "sorted xs \<and> distinct xs"
proof -
  from lookup_subset_mem [OF assms(2)] obtain sub where
    m: "(fst spec, sub) \<in> set d" "(snd spec, xs) \<in> set sub" by blast
  from assms(1) have "d = indices12 \<or> d = indices19 st"
    by (auto simp: indices_def split: if_splits)
  with m show ?thesis
    using indices12_sorted_distinct indices19_sorted_distinct by blast
qed

lemma example_indices: "indices example_stimulus = Inr (indices19 example_stimulus)"
  by (simp add: indices_def example_stimulus_def)

lemma example_valid20:
  "np_where (\<lambda>t. 20 \<le> t) (concat (t_bins_from_onset example_stimulus)) = [20, 41, 42]"
  by (simp add: np_where_def t_bins_from_onset_def example_stimulus_def upt_conv_Cons nth_append)

lemma example_subset:
  "lookup_subset (indices19 example_stimulus) (''valid20'', ''all'') = Inr [20, 41, 42]"
  by (simp add: lookup_subset_def indices19_def Let_def example_valid20)

text \<open>
  Claim C1. For every index subset that \<^verbatim>\<open>indices\<close> produces and every \<open>k_folds \<ge> 2\<close>,
  \<^verbatim>\<open>get_indices\<close> returns (neither assertion fails), and in every (train, test) pair it
  returns, whatever folds are selected, the train set and the test set have no index in
  common.
\<close>

theorem get_indices_no_overlap:
  assumes "indices st = Inr all_idxes"
    and "lookup_subset all_idxes spec = Inr idxes"
    and "2 \<le> k"
  shows "\<exists>folds. get_indices st spec (K k) fold_idxes_to_include = Inr folds \<and>
           (\<forall>(train, test) \<in> set folds. set train \<inter> set test = {})"
proof -
  from indices_sorted_distinct [OF assms(1,2)] have sd: "sorted idxes" "distinct idxes"
    by simp_all
  from folds_of_K [OF assms(3) sd, of fold_idxes_to_include] obtain splits where
    sp: "concat splits = idxes"
      "folds_of idxes (K k) fold_idxes_to_include =
         Inr (select_folds fold_idxes_to_include (fold_pairs splits [0..<length splits]))"
    by blast
  let ?folds = "select_folds fold_idxes_to_include (fold_pairs splits [0..<length splits])"
  have ret: "get_indices st spec (K k) fold_idxes_to_include = Inr ?folds"
    using assms(1,2) sp(2) by (simp add: get_indices_def)
  have sub: "set ?folds \<subseteq> set (fold_pairs splits [0..<length splits])"
    by (rule set_select_folds)
  have dc: "distinct (concat splits)" using sd(2) sp(1) by simp
  have "\<forall>(train, test) \<in> set ?folds. set train \<inter> set test = {}"
  proof
    fix p
    assume mem: "p \<in> set ?folds"
    from sub mem have "p \<in> set (fold_pairs splits [0..<length splits])" by (rule subsetD)
    then obtain i where i: "i < length splits"
      "p = (concat (take i splits @ drop (i + 1) splits), splits ! i)"
      unfolding fold_pairs_def by (auto simp del: concat_append)
    from split_disjoint [OF dc i(1)] i(2)
    show "case p of (train, test) \<Rightarrow> set train \<inter> set test = {}" by simp
  qed
  with ret show ?thesis by (intro exI [of _ ?folds] conjI)
qed

theorem get_indices_no_overlap_witness:
  "\<exists>folds. get_indices example_stimulus (''valid20'', ''all'') (K 2) None = Inr folds \<and>
      (\<forall>(train, test) \<in> set folds. set train \<inter> set test = {})"
proof -
  have "(2::int) \<le> 2" by simp
  from get_indices_no_overlap [OF example_indices example_subset this] show ?thesis .
qed

lemma split_unique:
  assumes dc: "distinct (concat splits)" and i: "i < length splits" and j: "j < length splits"
    and xi: "x \<in> set (splits ! i)" and xj: "x \<in> set (splits ! j)"
  shows "i = j"
proof (rule ccontr)
  assume ne: "i \<noteq> j"
  have "splits ! j \<in> set (take i splits @ drop (i + 1) splits)"
  proof (cases "j < i")
    case True
    then have "splits ! j = take i splits ! j" by simp
    moreover have "j < length (take i splits)" using True i by simp
    ultimately have "splits ! j \<in> set (take i splits)" by (metis nth_mem)
    then show ?thesis by simp
  next
    case False
    with ne have gt: "i + 1 \<le> j" by simp
    have "splits ! j = drop (i + 1) splits ! (j - (i + 1))" using gt j by simp
    moreover have "j - (i + 1) < length (drop (i + 1) splits)" using gt j by simp
    ultimately have "splits ! j \<in> set (drop (i + 1) splits)" by (metis nth_mem)
    then show ?thesis by simp
  qed
  with xj have "x \<in> set (concat (take i splits @ drop (i + 1) splits))"
    by (auto simp del: concat_append)
  with split_disjoint [OF dc i] xi show False by blast
qed

lemma select_folds_falsy:
  "inc = None \<or> inc = Some [] \<Longrightarrow> select_folds inc folds = folds"
  by (auto simp: select_folds_def)

lemma snd_fold_pairs_nth:
  "i < length splits \<Longrightarrow> snd (fold_pairs splits [0..<length splits] ! i) = splits ! i"
  by (simp add: fold_pairs_def)

text \<open>
  Claim C2, amended. For every index subset that \<^verbatim>\<open>indices\<close> produces (all of them are
  sorted) and every \<open>k_folds \<ge> 2\<close>, when no folds are selected (\<^verbatim>\<open>fold_idxes_to_include\<close>
  is \<^verbatim>\<open>None\<close> or empty), \<^verbatim>\<open>get_indices\<close> returns \<open>k_folds\<close> folds, the sorted
  concatenation of their test sets is the subset, and each index of the subset is in
  exactly one test set.
\<close>

theorem get_indices_coverage:
  assumes "indices st = Inr all_idxes"
    and "lookup_subset all_idxes spec = Inr idxes"
    and "2 \<le> k"
    and "fold_idxes_to_include = None \<or> fold_idxes_to_include = Some []"
  shows "\<exists>folds. get_indices st spec (K k) fold_idxes_to_include = Inr folds \<and>
           length folds = nat k \<and>
           sort (concat (map snd folds)) = idxes \<and>
           (\<forall>x \<in> set idxes. \<exists>!i. i < length folds \<and> x \<in> set (snd (folds ! i)))"
proof -
  from indices_sorted_distinct [OF assms(1,2)] have sd: "sorted idxes" "distinct idxes"
    by simp_all
  from folds_of_K [OF assms(3) sd, of fold_idxes_to_include] obtain splits where
    sp: "concat splits = idxes" "length splits = nat k"
      "folds_of idxes (K k) fold_idxes_to_include =
         Inr (select_folds fold_idxes_to_include (fold_pairs splits [0..<length splits]))"
    by blast
  let ?folds = "fold_pairs splits [0..<length splits]"
  have sel: "select_folds fold_idxes_to_include ?folds = ?folds"
    using assms(4) by (rule select_folds_falsy)
  have ret: "get_indices st spec (K k) fold_idxes_to_include = Inr ?folds"
    using assms(1,2) sp(3) sel by (simp add: get_indices_def)
  have len: "length ?folds = nat k" using sp(2) by (simp add: fold_pairs_def)
  have tests: "map snd ?folds = splits" by (rule map_snd_fold_pairs)
  have srt: "sort (concat (map snd ?folds)) = idxes"
    using sd(1) sp(1) by (simp only: tests sorted_sort_id)
  have dc: "distinct (concat splits)" using sd(2) sp(1) by simp
  have lenf: "length ?folds = length splits" by (simp add: fold_pairs_def)
  have uniq: "\<exists>!i. i < length ?folds \<and> x \<in> set (snd (?folds ! i))" if x: "x \<in> set idxes" for x
  proof -
    from x sp(1) have "x \<in> set (concat splits)" by simp
    then obtain s where s: "s \<in> set splits" "x \<in> set s" by auto
    then obtain i where i: "i < length splits" "splits ! i = s" by (auto simp: in_set_conv_nth)
    show ?thesis
    proof (rule ex1I [of _ i])
      show "i < length ?folds \<and> x \<in> set (snd (?folds ! i))"
        using i s(2) lenf by (simp add: snd_fold_pairs_nth)
    next
      fix j
      assume j: "j < length ?folds \<and> x \<in> set (snd (?folds ! j))"
      then have jl: "j < length splits" using lenf by simp
      with j have "x \<in> set (splits ! j)" by (simp add: snd_fold_pairs_nth)
      moreover have "x \<in> set (splits ! i)" using i s(2) by simp
      ultimately show "j = i" using split_unique [OF dc jl i(1)] by blast
    qed
  qed
  from ret len srt uniq show ?thesis by (intro exI [of _ ?folds] conjI ballI)
qed


theorem get_indices_coverage_witness:
  "\<exists>folds. get_indices example_stimulus (''valid20'', ''all'') (K 2) (Some []) = Inr folds \<and>
     length folds = nat 2 \<and>
     sort (concat (map snd folds)) = [20, 41, 42] \<and>
     (\<forall>x \<in> set [20, 41, 42]. \<exists>!i. i < length folds \<and> x \<in> set (snd (folds ! i)))"
proof -
  have k: "(2::int) \<le> 2" by simp
  have inc: "Some [] = None \<or> Some [] = Some ([]::int list)" by simp
  from get_indices_coverage [OF example_indices example_subset k inc] show ?thesis .
qed

text \<open>
  With a selection of folds the returned list holds the selected folds only, so the test
  sets of the returned folds no longer cover the subset: the second of two folds alone
  tests on the last index.
\<close>

lemma example_folds_of:
  "folds_of [20, 41, 42] (K 2) (Some [1]) = Inr [([20, 41], [42])]"
  by (simp add: folds_of_def array_split_def section_sizes_def np_concatenate_def
      no_overlap_def select_folds_def enumerate_eq_zip upt_conv_Cons)

theorem get_indices_selected_folds_counterexample:
  "lookup_subset (indices19 example_stimulus) (''valid20'', ''all'') = Inr [20, 41, 42] \<and>
   get_indices example_stimulus (''valid20'', ''all'') (K 2) (Some [1]) = Inr [([20, 41], [42])] \<and>
   sort (concat (map snd [([20::nat, 41], [42::nat])])) \<noteq> [20, 41, 42]"
  by (simp add: get_indices_def example_indices example_subset example_folds_of)

lemma map_length_split_at_sizes:
  "sum_list ss \<le> length xs \<Longrightarrow> map length (split_at_sizes xs ss) = ss"
proof (induction ss arbitrary: xs)
  case Nil
  show ?case by simp
next
  case (Cons s ss)
  then have "sum_list ss \<le> length (drop s xs)" by simp
  from Cons.IH [OF this] Cons.prems show ?case by simp
qed

lemma set_section_sizes: "set (section_sizes n k) \<subseteq> {n div k, n div k + 1}"
  by (auto simp: section_sizes_def)

lemma array_split_lengths:
  assumes "0 < k" "array_split ary k = Inr splits" "s \<in> set splits"
  shows "length s = length ary div nat k \<or> length s = length ary div nat k + 1"
proof -
  from assms(1) have k: "0 < nat k" by simp
  from assms(1,2) have sp: "splits = split_at_sizes ary (section_sizes (length ary) (nat k))"
    by (simp add: array_split_def)
  have "map length splits = section_sizes (length ary) (nat k)"
    unfolding sp by (rule map_length_split_at_sizes) (simp add: sum_list_section_sizes [OF k])
  moreover from assms(3) have "length s \<in> set (map length splits)" by simp
  ultimately have "length s \<in> set (section_sizes (length ary) (nat k))" by simp
  with set_section_sizes show ?thesis by blast
qed

lemma butlast_last_disjoint:
  assumes "distinct (concat splits)" "splits \<noteq> []"
  shows "set (concat (butlast splits)) \<inter> set (last splits) = {}"
proof -
  from assms(2) have "splits = butlast splits @ [last splits]" by simp
  then have "distinct (concat (butlast splits @ [last splits]))" using assms(1) by simp
  then show ?thesis by auto
qed


text \<open>
  Claim C9. When \<open>k_folds\<close> is \<^verbatim>\<open>None\<close> or 1, \<^verbatim>\<open>get_indices\<close> returns exactly one
  (train, test) pair: the subset is split into 10 consecutive parts whose lengths differ by
  at most one, train is the concatenation of the first nine and test is the tenth; train
  and test are disjoint and together they are the whole subset.
\<close>

theorem get_indices_single_split:
  assumes "indices st = Inr all_idxes"
    and "lookup_subset all_idxes spec = Inr idxes"
    and "k_folds = K_None \<or> k_folds = K 1"
  shows "\<exists>splits. array_split idxes 10 = Inr splits \<and> length splits = 10 \<and>
           concat splits = idxes \<and>
           (\<forall>s \<in> set splits. length s = length idxes div 10 \<or> length s = length idxes div 10 + 1) \<and>
           get_indices st spec k_folds fold_idxes_to_include =
             Inr [(concat (butlast splits), last splits)] \<and>
           set (concat (butlast splits)) \<inter> set (last splits) = {} \<and>
           concat (butlast splits) @ last splits = idxes"
proof -
  from indices_sorted_distinct [OF assms(1,2)] have dst: "distinct idxes" by simp
  have pos: "(0::int) < 10" by simp
  from array_split_Inr [OF pos, of idxes] obtain splits where
    sp: "array_split idxes 10 = Inr splits" "concat splits = idxes" "length splits = nat 10"
    by blast
  have len: "length splits = 10" using sp(3) by simp
  then have ne: "splits \<noteq> []" by auto
  have bl: "butlast splits \<noteq> []"
  proof
    assume "butlast splits = []"
    then have "length (butlast splits) = 0" by simp
    with len show False by simp
  qed
  have sizes: "\<forall>s \<in> set splits. length s = length idxes div 10 \<or> length s = length idxes div 10 + 1"
    using array_split_lengths [OF pos sp(1)] by simp
  have folds: "folds_of idxes k_folds fold_idxes_to_include =
      Inr [(concat (butlast splits), last splits)]"
    using assms(3) sp(1) bl by (auto simp: folds_of_def np_concatenate_def)
  have ret: "get_indices st spec k_folds fold_idxes_to_include =
      Inr [(concat (butlast splits), last splits)]"
    using assms(1,2) folds by (simp add: get_indices_def)
  have dis: "set (concat (butlast splits)) \<inter> set (last splits) = {}"
    using dst sp(2) ne by (intro butlast_last_disjoint) simp_all
  have "concat (butlast splits) @ last splits = concat (butlast splits @ [last splits])"
    by simp
  also have "\<dots> = concat splits" using append_butlast_last_id [OF ne] by (rule arg_cong)
  finally have whole: "concat (butlast splits) @ last splits = idxes" using sp(2) by simp
  from sp(1) len sp(2) sizes ret dis whole show ?thesis
    by (intro exI [of _ splits] conjI)
qed

theorem get_indices_single_split_witness:
  "\<exists>splits. array_split [20, 41, 42] 10 = Inr splits \<and> length splits = 10 \<and>
     concat splits = [20, 41, 42] \<and>
     (\<forall>s \<in> set splits. length s = length [20::nat, 41, 42] div 10 \<or>
        length s = length [20::nat, 41, 42] div 10 + 1) \<and>
     get_indices example_stimulus (''valid20'', ''all'') K_None None =
       Inr [(concat (butlast splits), last splits)] \<and>
     set (concat (butlast splits)) \<inter> set (last splits) = {} \<and>
     concat (butlast splits) @ last splits = [20, 41, 42]"
proof -
  have k: "K_None = K_None \<or> K_None = K 1" by simp
  from get_indices_single_split [OF example_indices example_subset k] show ?thesis .
qed

lemma py_slice_nat:
  "py_slice xs (int a) (int a + int l) = take l (drop a xs)"
proof (cases "a < length xs")
  case True
  have "nat (min (int a + int l) (int (length xs)) - int a) = min l (length xs - a)"
    using True by (auto simp: min_def)
  moreover have "take (min l (length xs - a)) (drop a xs) = take l (drop a xs)"
    by (simp add: min_def)
  ultimately show ?thesis using True by (simp add: py_slice_def Let_def min_def)
next
  case False
  then show ?thesis by (simp add: py_slice_def Let_def min_def)
qed

lemma concat_windows:
  "concat (map (\<lambda>j. take l (drop (j * l) xs)) [0..<s]) = take (s * l) xs"
proof (induction s)
  case 0
  show ?case by simp
next
  case (Suc s)
  have "take (s * l) xs @ take l (drop (s * l) xs) = take (s * l + l) xs"
    by (simp add: take_add)
  with Suc show ?case by (simp add: add.commute)
qed

lemma segment_length_nat:
  assumes "0 < s"
  shows "\<exists>l. segment_length n (int s) = Inr (int l) \<and> n \<le> s * l"
proof -
  let ?q = "(of_nat n :: rat) / of_int (int s)"
  have nonneg: "0 \<le> ?q" using assms by simp
  then have "\<lceil>0::rat\<rceil> \<le> \<lceil>?q\<rceil>" by (rule ceiling_mono)
  then have c0: "0 \<le> \<lceil>?q\<rceil>" by simp
  define l where "l = nat \<lceil>?q\<rceil>"
  have il: "int l = \<lceil>?q\<rceil>" using c0 by (simp add: l_def)
  have "?q \<le> of_int \<lceil>?q\<rceil>" by (rule le_of_int_ceiling)
  then have "?q \<le> of_nat l" using il by (metis of_int_of_nat_eq)
  then have "(of_nat n :: rat) \<le> of_nat l * of_nat s"
    using assms by (simp add: pos_divide_le_eq)
  then have "(of_nat n :: rat) \<le> of_nat (l * s)" by simp
  then have "n \<le> l * s" by (simp only: of_nat_le_iff)
  moreover have "segment_length n (int s) = Inr (int l)"
    using assms il by (simp add: segment_length_def)
  ultimately show ?thesis by (auto simp: mult.commute)
qed

lemma window_form:
  assumes "segment_length (length cs) (int s) = Inr (int l)"
  shows "segment_window cs (int j + 1) (int s) = Inr (take l (drop (j * l) cs))"
proof -
  have "py_slice cs (int j * int l) (int j * int l + int l) = take l (drop (j * l) cs)"
    using py_slice_nat [of cs "j * l" l] by simp
  with assms show ?thesis by (simp add: segment_window_def Let_def)
qed

lemma take_drop_positions:
  "take l (drop a xs) = map (nth xs) (take l (drop a [0..<length xs]))"
proof -
  have "map (nth xs) (take l (drop a [0..<length xs])) =
        take l (drop a (map (nth xs) [0..<length xs]))"
    by (simp only: take_map drop_map)
  then show ?thesis by (simp only: map_nth)
qed

lemma concat_parts_disjoint:
  assumes "distinct (concat ws)" "i < length ws" "j < length ws" "i \<noteq> j"
  shows "set (ws ! i) \<inter> set (ws ! j) = {}"
  using split_unique [OF assms(1,2,3)] assms(4) by blast

text \<open>
  Claim C7. For \<open>n\<close> clusters and \<open>S \<ge> 1\<close> batch jobs, the windows of cluster positions
  that \<^verbatim>\<open>run_analysis\<close> processes for \<open>this_data_segment = 1, \<dots>, S\<close> are pairwise
  disjoint and their concatenation is the list of all \<open>n\<close> positions, and the clusters
  processed by a job are the clusters at the positions of its window: every cluster is
  processed by exactly one job.
\<close>

theorem segment_windows_partition:
  assumes "1 \<le> s"
  shows "\<exists>ws. length ws = s \<and>
           (\<forall>j<s. segment_window [0..<n] (int j + 1) (int s) = Inr (ws ! j)) \<and>
           concat ws = [0..<n] \<and>
           (\<forall>i<s. \<forall>j<s. i \<noteq> j \<longrightarrow> set (ws ! i) \<inter> set (ws ! j) = {}) \<and>
           (\<forall>cs::'a list. length cs = n \<longrightarrow>
              (\<forall>j<s. segment_window cs (int j + 1) (int s) = Inr (map (nth cs) (ws ! j))))"
proof -
  from assms have "0 < s" by simp
  from segment_length_nat [OF this, of n] obtain l where
    sl: "segment_length n (int s) = Inr (int l)" and l: "n \<le> s * l" by blast
  have posw: "segment_window [0..<n] (int j + 1) (int s) = Inr (take l (drop (j * l) [0..<n]))"
    for j using sl by (intro window_form) simp
  have csw: "segment_window cs (int j + 1) (int s) = Inr (take l (drop (j * l) cs))"
    if "length cs = n" for cs :: "'a list" and j
    using sl that by (intro window_form) simp
  let ?ws = "map (\<lambda>j. take l (drop (j * l) [0..<n])) [0..<s]"
  have len: "length ?ws = s" by simp
  have cat: "concat ?ws = [0..<n]" using l by (simp only: concat_windows) simp
  have win: "\<forall>j<s. segment_window [0..<n] (int j + 1) (int s) = Inr (?ws ! j)"
    using posw by simp
  have dis: "\<forall>i<s. \<forall>j<s. i \<noteq> j \<longrightarrow> set (?ws ! i) \<inter> set (?ws ! j) = {}"
  proof (intro allI impI)
    fix i j assume "i < s" "j < s" "i \<noteq> j"
    moreover have "distinct (concat ?ws)" by (simp only: cat distinct_upt)
    ultimately show "set (?ws ! i) \<inter> set (?ws ! j) = {}"
      using len by (intro concat_parts_disjoint) simp_all
  qed
  have cl: "\<forall>cs::'a list. length cs = n \<longrightarrow>
      (\<forall>j<s. segment_window cs (int j + 1) (int s) = Inr (map (nth cs) (?ws ! j)))"
  proof (intro allI impI)
    fix cs :: "'a list" and j
    assume n: "length cs = n" and j: "j < s"
    have "take l (drop (j * l) cs) = map (nth cs) (take l (drop (j * l) [0..<n]))"
      using take_drop_positions [of l "j * l" cs] n by simp
    with csw [OF n, of j] j show "segment_window cs (int j + 1) (int s) = Inr (map (nth cs) (?ws ! j))"
      by simp
  qed
  from len win cat dis cl show ?thesis by (intro exI [of _ ?ws] conjI)
qed


theorem segment_windows_partition_witness:
  "\<exists>ws. length ws = 2 \<and>
     (\<forall>j<2. segment_window [0..<5] (int j + 1) (int 2) = Inr (ws ! j)) \<and>
     concat ws = [0..<5] \<and>
     (\<forall>i<2. \<forall>j<2. i \<noteq> j \<longrightarrow> set (ws ! i) \<inter> set (ws ! j) = {}) \<and>
     (\<forall>cs::string list. length cs = 5 \<longrightarrow>
        (\<forall>j<2. segment_window cs (int j + 1) (int 2) = Inr (map (nth cs) (ws ! j))))"
proof -
  have "(1::nat) \<le> 2" by simp
  from segment_windows_partition [OF this, of 5] show ?thesis .
qed

section \<open>Properties of the loader's noise ratio\<close>

lemma cond_power_fields_zero:
  "signal_power p = Fin 0 \<Longrightarrow>
   \<exists>d. cond_power_fields kind p = Inr d \<and> map_of d ''noiseratio'' = Some (VFloat NaN)"
  by (simp add: cond_power_fields_def)

text \<open>
  Claim C8. The loader sets \<^verbatim>\<open>noiseratio\<close> to NaN when the signal power is zero only for
  optogenetic clusters. For a cluster that is not optogenetic the division is not guarded:
  with signal power 0 and noise power 1 the noise ratio is infinite when the powers are
  numpy floats, and the loader raises ZeroDivisionError when they are Python floats, while
  the guarded branch gives NaN on the same powers.
\<close>

theorem plain_noiseratio_zero_signal:
  "power_fields Numpy_float False \<lparr>signal_power = Fin 0, noise_power = Fin 1, total_power = Fin 1\<rparr> =
     Inr [(''signal_power'', VFloat (Fin 0)), (''noise_power'', VFloat (Fin 1)),
          (''total_power'', VFloat (Fin 1)), (''noiseratio'', VFloat PInf)] \<and>
   power_fields Python_float False \<lparr>signal_power = Fin 0, noise_power = Fin 1, total_power = Fin 1\<rparr> =
     Inl ZeroDivisionError \<and>
   power_fields Numpy_float True \<lparr>signal_power = Fin 0, noise_power = Fin 1, total_power = Fin 1\<rparr> =
     Inr [(''signal_power'', VFloat (Fin 0)), (''noise_power'', VFloat (Fin 1)),
          (''total_power'', VFloat (Fin 1)), (''noiseratio'', VFloat NaN)]"
  by (simp add: power_fields_def plain_power_fields_def cond_power_fields_def float_divide_def)

section \<open>Properties of select_data\<close>

lemma filter_err_total:
  "\<forall>c \<in> set cs. p c = Inr (P c) \<Longrightarrow> filter_err p cs = Inr (filter P cs)"
  by (induction cs) simp_all

lemma py_in_inf:
  "num_of v = Some x \<Longrightarrow> py_in v [VStr ''inf'', VFloat PInf] = (x = PInf)"
  by (auto simp: py_in_def py_eq_def)

lemma select_noiseratio_threshold:
  assumes floats: "\<forall>c \<in> set cs. \<exists>f. map_of c ''noiseratio'' = Some (VFloat f)"
    and v: "num_of v = Some x" "x \<noteq> PInf"
  shows "select_noiseratio v cs =
           Inr [c \<leftarrow> cs. noiseratio_of c \<noteq> NaN \<and> float_le (noiseratio_of c) x]"
proof -
  let ?notnan = "\<lambda>c. case getitem c ''noiseratio'' of
                        Inl e \<Rightarrow> Inl e
                      | Inr x \<Rightarrow> (case isnan x of Inl e \<Rightarrow> Inl e | Inr b \<Rightarrow> Inr (\<not> b))"
  let ?le = "\<lambda>c. case getitem c ''noiseratio'' of Inl e \<Rightarrow> Inl e | Inr x \<Rightarrow> py_le x v"
  have nn: "\<forall>c \<in> set cs. ?notnan c = Inr (noiseratio_of c \<noteq> NaN)"
    using floats by (auto simp: getitem_def isnan_def noiseratio_of_def)
  have le: "\<forall>c \<in> set [c \<leftarrow> cs. noiseratio_of c \<noteq> NaN]. ?le c = Inr (float_le (noiseratio_of c) x)"
    using floats v(1) by (auto simp: getitem_def py_le_def noiseratio_of_def)
  have "select_noiseratio v cs =
          Inr [c \<leftarrow> [c \<leftarrow> cs. noiseratio_of c \<noteq> NaN]. float_le (noiseratio_of c) x]"
    using v by (simp add: select_noiseratio_def py_in_inf filter_err_total [OF nn]
        filter_err_total [OF le])
  then show ?thesis by simp
qed


text \<open>
  Claim C10. \<^verbatim>\<open>select_data(noiseratio=v)\<close> on clusters that all carry a float noise ratio:
  for \<open>v\<close> the string \<^verbatim>\<open>'inf'\<close> or positive infinity it returns all clusters, those
  with a NaN noise ratio included; for any other number \<open>v\<close> it returns exactly the clusters
  whose noise ratio is not NaN and is at most \<open>v\<close>, in their order.
\<close>

theorem select_data_noiseratio:
  assumes "\<forall>c \<in> set (clusters self). \<exists>f. map_of c ''noiseratio'' = Some (VFloat f)"
  shows "select_data self [(''noiseratio'', VStr ''inf'')] = Inr (clusters self) \<and>
         select_data self [(''noiseratio'', VFloat PInf)] = Inr (clusters self) \<and>
         (num_of v = Some x \<and> x \<noteq> PInf \<longrightarrow>
            select_data self [(''noiseratio'', v)] =
              Inr [c \<leftarrow> clusters self. noiseratio_of c \<noteq> NaN \<and> float_le (noiseratio_of c) x])"
proof (intro conjI impI)
  show "select_data self [(''noiseratio'', VStr ''inf'')] = Inr (clusters self)"
    by (simp add: select_data_def select_noiseratio_def py_in_def py_eq_def)
  show "select_data self [(''noiseratio'', VFloat PInf)] = Inr (clusters self)"
    by (simp add: select_data_def select_noiseratio_def py_in_def py_eq_def)
  assume v: "num_of v = Some x \<and> x \<noteq> PInf"
  then have "select_noiseratio v (clusters self) =
      Inr [c \<leftarrow> clusters self. noiseratio_of c \<noteq> NaN \<and> float_le (noiseratio_of c) x]"
    using assms by (intro select_noiseratio_threshold) simp_all
  then show "select_data self [(''noiseratio'', v)] =
      Inr [c \<leftarrow> clusters self. noiseratio_of c \<noteq> NaN \<and> float_le (noiseratio_of c) x]"
    by (simp add: select_data_def)
qed

theorem select_data_noiseratio_witness:
  "select_data example_clusters [(''noiseratio'', VStr ''inf'')] = Inr (clusters example_clusters) \<and>
   select_data example_clusters [(''noiseratio'', VFloat PInf)] = Inr (clusters example_clusters) \<and>
   select_data example_clusters [(''noiseratio'', VInt 200)] =
     Inr [[(''unique_id'', VStr ''ic-e001-p001-c002''), (''noiseratio'', VFloat (Fin 5))]]"
proof -
  have h: "\<forall>c \<in> set (clusters example_clusters). \<exists>f. map_of c ''noiseratio'' = Some (VFloat f)"
    by (simp add: example_clusters_def)
  from select_data_noiseratio [OF h, of "VInt 200" "Fin 200"] show ?thesis
    by (simp add: example_clusters_def noiseratio_of_def)
qed

section \<open>Properties of the fingerprint and the results paths\<close>


lemma example_fingerprint:
  "build_param_str (Func_str ''coch_kernel'') example_params =
     ''coch_kernel--n_h=13--subset=valid20-all''"
  by (simp add: build_param_str_def example_params_def)

lemma example_results_path:
  "run_analysis_results_path example_env example_clusters (Func_str ''coch_kernel'') example_params =
     example_path"
  by (simp add: run_analysis_results_path_def example_fingerprint path_join_def with_suffix_def
      path_suffix_def path_name_def after_last_dot_def example_env_def example_clusters_def
      example_path_def Let_def)




lemma example_window:
  "segment_window (clusters example_clusters) 1 1 = Inr (clusters example_clusters)"
  by (simp add: segment_window_def segment_length_def py_slice_def example_clusters_def)

lemma example_resolve: "resolve_func example_env (Func_str ''coch_kernel'') = Inr example_func"
  by (simp add: resolve_func_def example_env_def)

lemma example_results_path_func:
  "run_analysis_results_path example_env example_clusters (Func example_func) example_params =
     example_path"
  using example_results_path
  by (simp add: run_analysis_results_path_def build_param_str_def example_func_def)

lemma example_resume_loop:
  "resume_loop example_func (clusters example_clusters) example_params False False
     [VStr ''ic-e001-p001-c001''] (clusters example_clusters) [example_old_entry] example_world =
   (Inr example_results, example_world\<lparr>calls := drop 1 (clusters example_clusters)\<rparr>)"
  by (simp add: example_clusters_def getitem_def py_in_def py_eq_def apply_func_to_cluster_def
      example_func_def example_results_def example_world_def Let_def)

lemma example_run:
  "run_analysis example_env example_clusters (Func_str ''coch_kernel'') example_params
     example_options example_world = (Inr (Some example_results), example_world_after)"
proof -
  have f: "files example_world example_path = Some (Results_list [example_old_entry])"
    by (simp add: example_world_def)
  have ids: "getitem example_old_entry ''unique_id'' = Inr (VStr ''ic-e001-p001-c001'')"
    by (simp add: example_old_entry_def getitem_def)
  have w: "example_world\<lparr>calls := c, files := fs\<rparr> = \<lparr>files = fs, calls = c\<rparr>" for c fs
    by (simp add: example_world_def)
  show ?thesis
    by (simp add: run_analysis_def example_options_def example_window example_resolve
        example_results_path_func f ids example_resume_loop example_world_after_def w)
qed




section \<open>Properties of run_analysis\<close>

lemma processed_ids_mem:
  assumes "map_err (\<lambda>r. getitem r ''unique_id'') old = Inr pids"
    and "entry \<in> set old" and "getitem entry ''unique_id'' = Inr u"
  shows "u \<in> set pids"
  using assms by (induction old arbitrary: pids) (auto split: sum.splits)

lemma not_processed:
  assumes pids: "map_err (\<lambda>r. getitem r ''unique_id'') old = Inr processed_ids"
    and uid: "getitem c ''unique_id'' = Inr uid" "\<not> py_in uid processed_ids"
    and e: "entry \<in> set old" and u: "getitem c ''unique_id'' = Inr u"
    and u': "getitem entry ''unique_id'' = Inr u'"
  shows "\<not> py_eq u u'"
proof
  assume eq: "py_eq u u'"
  from pids e u' have mem: "u' \<in> set processed_ids" by (rule processed_ids_mem)
  from uid(1) u have "uid = u" by simp
  with eq mem have "\<exists>p \<in> set processed_ids. py_eq uid p" by (intro bexI [of _ u']) simp_all
  then have "py_in uid processed_ids" by (simp add: py_in_def list_ex_iff)
  with uid(2) show False by simp
qed

lemma apply_func_to_cluster_world:
  assumes "apply_func_to_cluster f c cs ps foe w = (r, w')"
  shows "calls w' = calls w @ [c] \<and> files w' = files w"
  using assms
  by (auto simp: apply_func_to_cluster_def Let_def split: sum.splits if_splits)

lemma resume_loop_frame:
  assumes "resume_loop f cs ps foe False pids window res w = (r, w')"
  shows "\<exists>new. calls w' = calls w @ new \<and> files w' = files w \<and>
           (\<forall>c \<in> set new. c \<in> set window \<and>
              (\<exists>uid. getitem c ''unique_id'' = Inr uid \<and> \<not> py_in uid pids)) \<and>
           (\<forall>res'. r = Inr res' \<longrightarrow> take (length res) res' = res)"
  using assms
proof (induction window arbitrary: res w)
  case Nil
  then show ?case by auto
next
  case (Cons c rest)
  show ?case
  proof (cases "getitem c ''unique_id''")
    case (Inl e)
    with Cons.prems show ?thesis by auto
  next
    case (Inr uid)
    show ?thesis
    proof (cases "py_in uid pids")
      case True
      with Cons.prems Inr have "resume_loop f cs ps foe False pids rest res w = (r, w')" by simp
      from Cons.IH [OF this] show ?thesis by auto
    next
      case False
      obtain a w1 where ap: "apply_func_to_cluster f c cs ps foe w = (a, w1)"
        by (cases "apply_func_to_cluster f c cs ps foe w")
      from apply_func_to_cluster_world [OF ap] have
        w1: "calls w1 = calls w @ [c]" "files w1 = files w" by simp_all
      show ?thesis
      proof (cases a)
        case (Inl e)
        with Cons.prems Inr False ap have "r = Inl e" "w' = w1" by simp_all
        with w1 Inr False show ?thesis by (intro exI [of _ "[c]"]) auto
      next
        case inr: (Inr x)
        let ?res = "case x of None \<Rightarrow> res | Some y \<Rightarrow> res @ [y]"
        from Cons.prems Inr False ap inr have
          "resume_loop f cs ps foe False pids rest ?res w1 = (r, w')" by simp
        from Cons.IH [OF this] obtain new where new:
          "calls w' = calls w1 @ new" "files w' = files w1"
          "\<forall>c \<in> set new. c \<in> set rest \<and>
              (\<exists>uid. getitem c ''unique_id'' = Inr uid \<and> \<not> py_in uid pids)"
          "\<forall>res'. r = Inr res' \<longrightarrow> take (length ?res) res' = ?res"
          by blast
        have pre: "take (length res) res' = res" if "r = Inr res'" for res'
        proof -
          from new(4) that have t: "take (length ?res) res' = ?res" by blast
          have "take (length res) (take (length ?res) res') = take (length res) res'"
            by (cases x) (simp_all add: min_def)
          with t have "take (length res) res' = take (length res) ?res" by simp
          then show ?thesis by (cases x) simp_all
        qed
        from new(1,2,3) w1 Inr False pre show ?thesis
          by (intro exI [of _ "c # new"]) auto
      qed
    qed
  qed
qed


lemma set_py_slice: "set (py_slice xs a b) \<subseteq> set xs"
proof -
  have "set (take n (drop m xs)) \<subseteq> set xs" for n m
    using set_take_subset [of n "drop m xs"] set_drop_subset [of m xs] by blast
  then show ?thesis by (simp add: py_slice_def Let_def)
qed

lemma set_segment_window:
  assumes "segment_window cs a b = Inr window"
  shows "set window \<subseteq> set cs"
proof (cases "segment_length (length cs) b")
  case (Inl e)
  with assms show ?thesis by (simp add: segment_window_def)
next
  case (Inr l)
  with assms have "window = py_slice cs ((a - 1) * l) ((a - 1) * l + l)"
    by (simp add: segment_window_def Let_def)
  then show ?thesis by (simp only: set_py_slice)
qed

lemma run_analysis_single_unfold:
  assumes "save_results opts" and "\<not> multiple_results_files opts" and "\<not> ignore_existing opts"
    and "resolve_func env func = Inr f"
    and "files w (run_analysis_results_path env self (Func f) ps) = Some (Results_list old)"
    and "segment_window (clusters self) (this_data_segment opts) (total_data_segments opts)
           = Inr window"
    and "map_err (\<lambda>r. getitem r ''unique_id'') old = Inr processed_ids"
  shows "run_analysis env self func ps opts w =
           (case resume_loop f (clusters self) ps (fail_on_error opts) False processed_ids
                   window old w of
              (Inl e, w') \<Rightarrow> (Inl e, w')
            | (Inr res', w') \<Rightarrow>
                (Inr (Some res'),
                 w'\<lparr>files := (files w')(run_analysis_results_path env self (Func f) ps
                                 \<mapsto> Results_list res')\<rparr>))"
  using assms by (simp add: run_analysis_def)

text \<open>
  Claim C4. In a run of \<^verbatim>\<open>run_analysis\<close> that saves to a single file and does not ignore
  existing results, with a results file that already holds the list \<open>old\<close>: the analysis
  function is called only on clusters of the object whose \<^verbatim>\<open>unique_id\<close> equals that of no
  entry of \<open>old\<close>; the list that is returned and written to the results file starts with
  \<open>old\<close>, unchanged; and when the run raises, no file is changed.
\<close>

theorem run_analysis_resumes:
  assumes "save_results opts" and "\<not> multiple_results_files opts" and "\<not> ignore_existing opts"
    and "resolve_func env func = Inr f"
    and "files w (run_analysis_results_path env self (Func f) ps) = Some (Results_list old)"
    and "run_analysis env self func ps opts w = (r, w')"
  shows "\<exists>new. calls w' = calls w @ new \<and>
           (\<forall>c \<in> set new. c \<in> set (clusters self) \<and>
              (\<forall>entry \<in> set old. \<forall>u u'. getitem c ''unique_id'' = Inr u \<longrightarrow>
                 getitem entry ''unique_id'' = Inr u' \<longrightarrow> \<not> py_eq u u')) \<and>
           (\<forall>res. r = Inr (Some res) \<longrightarrow>
              take (length old) res = old \<and>
              files w' (run_analysis_results_path env self (Func f) ps) = Some (Results_list res)) \<and>
           (\<forall>e. r = Inl e \<longrightarrow> files w' = files w)"
proof (cases "segment_window (clusters self) (this_data_segment opts) (total_data_segments opts)")
  case (Inl e)
  with assms(6) have "r = Inl e" "w' = w" by (simp_all add: run_analysis_def)
  then show ?thesis by (intro exI [of _ "[]"]) simp
next
  case (Inr window)
  let ?path = "run_analysis_results_path env self (Func f) ps"
  show ?thesis
  proof (cases "map_err (\<lambda>r. getitem r ''unique_id'') old")
    case (Inl e)
    with assms Inr have "r = Inl e" "w' = w" by (simp_all add: run_analysis_def)
    then show ?thesis by (intro exI [of _ "[]"]) simp
  next
    case pids: (Inr processed_ids)
    obtain r1 w1 where loop:
      "resume_loop f (clusters self) ps (fail_on_error opts) False processed_ids window old w
         = (r1, w1)"
      by (cases "resume_loop f (clusters self) ps (fail_on_error opts) False processed_ids
            window old w")
    from resume_loop_frame [OF loop] obtain new where new:
      "calls w1 = calls w @ new" "files w1 = files w"
      "\<forall>c \<in> set new. c \<in> set window \<and>
          (\<exists>uid. getitem c ''unique_id'' = Inr uid \<and> \<not> py_in uid processed_ids)"
      "\<forall>res'. r1 = Inr res' \<longrightarrow> take (length old) res' = old"
      by blast
    have fresh: "\<forall>c \<in> set new. c \<in> set (clusters self) \<and>
        (\<forall>entry \<in> set old. \<forall>u u'. getitem c ''unique_id'' = Inr u \<longrightarrow>
           getitem entry ''unique_id'' = Inr u' \<longrightarrow> \<not> py_eq u u')"
    proof (rule ballI, rule conjI)
      fix c assume c: "c \<in> set new"
      from new(3) c have "c \<in> set window" by blast
      with set_segment_window [OF Inr] show "c \<in> set (clusters self)" by (rule subsetD)
      from new(3) c obtain uid where uid:
        "getitem c ''unique_id'' = Inr uid" "\<not> py_in uid processed_ids" by blast
      show "\<forall>entry \<in> set old. \<forall>u u'. getitem c ''unique_id'' = Inr u \<longrightarrow>
           getitem entry ''unique_id'' = Inr u' \<longrightarrow> \<not> py_eq u u'"
      proof (intro ballI allI impI)
        fix entry u u'
        assume e: "entry \<in> set old" and u: "getitem c ''unique_id'' = Inr u"
          and u': "getitem entry ''unique_id'' = Inr u'"
        from pids uid e u u' show "\<not> py_eq u u'" by (rule not_processed)
      qed
    qed
    note unf = run_analysis_single_unfold [OF assms(1-5) Inr pids]
    show ?thesis
    proof (cases r1)
      case (Inl e)
      from assms(6) have "(r, w') = (Inl e, w1)" unfolding unf loop Inl by simp
      then have rw: "r = Inl e" "w' = w1" by simp_all
      have c1: "calls w' = calls w @ new" using rw new(1) by simp
      have c3: "\<forall>res. r = Inr (Some res) \<longrightarrow> take (length old) res = old \<and>
          files w' ?path = Some (Results_list res)" using rw by simp
      have c4: "\<forall>e. r = Inl e \<longrightarrow> files w' = files w" using rw new(2) by simp
      from c1 fresh c3 c4 show ?thesis by (intro exI [of _ new] conjI)
    next
      case res: (Inr res')
      from assms(6) have "(r, w') =
          (Inr (Some res'), w1\<lparr>files := (files w1)(?path \<mapsto> Results_list res')\<rparr>)"
        unfolding unf loop res by simp
      then have rw: "r = Inr (Some res')"
        "w' = w1\<lparr>files := (files w1)(?path \<mapsto> Results_list res')\<rparr>"
        by simp_all
      from new(4) res have pre: "take (length old) res' = old" by blast
      have c1: "calls w' = calls w @ new" using rw new(1) by simp
      have c3: "\<forall>res. r = Inr (Some res) \<longrightarrow> take (length old) res = old \<and>
          files w' ?path = Some (Results_list res)" using rw pre by simp
      have c4: "\<forall>e. r = Inl e \<longrightarrow> files w' = files w" using rw by simp
      from c1 fresh c3 c4 show ?thesis by (intro exI [of _ new] conjI)
    qed
  qed
qed


theorem run_analysis_resumes_witness:
  "\<exists>new. calls example_world_after = calls example_world @ new \<and>
     (\<forall>c \<in> set new. c \<in> set (clusters example_clusters) \<and>
        (\<forall>entry \<in> set [example_old_entry]. \<forall>u u'. getitem c ''unique_id'' = Inr u \<longrightarrow>
           getitem entry ''unique_id'' = Inr u' \<longrightarrow> \<not> py_eq u u')) \<and>
     (\<forall>res. Inr (Some example_results) = (Inr (Some res) :: error + pydict list option) \<longrightarrow>
        take (length [example_old_entry]) res = [example_old_entry] \<and>
        files example_world_after
          (run_analysis_results_path example_env example_clusters (Func example_func)
             example_params) = Some (Results_list res)) \<and>
     (\<forall>e. (Inr (Some example_results) :: error + pydict list option) = Inl e \<longrightarrow>
        files example_world_after = files example_world)"
proof -
  have o1: "save_results example_options" by (simp add: example_options_def)
  have o2: "\<not> multiple_results_files example_options" by (simp add: example_options_def)
  have o3: "\<not> ignore_existing example_options" by (simp add: example_options_def)
  have stored: "files example_world
      (run_analysis_results_path example_env example_clusters (Func example_func) example_params) =
      Some (Results_list [example_old_entry])"
    by (simp add: example_results_path_func example_world_def)
  from run_analysis_resumes [OF o1 o2 o3 example_resolve stored example_run] show ?thesis .
qed

section \<open>Properties of merge_results\<close>























end
